theory Spec2Isabelle
  imports Complex_Main "HOL-Library.Char_ord" "HOL-Library.List_Lexorder" "HOL-Library.Multiset"
begin

section \<open>Data model (types.ts)\<close>

text \<open>
  The layered layout of \<^verbatim>\<open>src/components/CadViewer.tsx\<close> is embedded below.
  JavaScript numbers are modelled as exact rationals: every quantity the layout
  computes is a rank times a width, a sum of node heights or half of one, so no
  rounding error, infinity or NaN is represented. Optional fields are \<open>option\<close>
  values, the three \<^verbatim>\<open>Map\<close> objects are partial functions, and identifiers are
  strings compared by their character codes, as \<^verbatim>\<open>Array.prototype.sort\<close> does
  without a comparator.

  The fields of \<^verbatim>\<open>SolarComponent\<close> and \<^verbatim>\<open>Connection\<close> carry a prefix, since
  \<open>id\<close>, \<open>x\<close>, \<open>y\<close>, \<open>from\<close> and \<open>to\<close> cannot be field names here.
\<close>

datatype ComponentType =
    PV_ARRAY | DC_COMBINER | DC_BREAKER | DC_SPD | INVERTER | AC_BREAKER
  | AC_SPD | AC_DISTRIBUTION | METER | GRID | LOAD

record SolarComponent =
  c_id :: string
  c_type :: ComponentType
  c_label :: string
  c_specs :: "string list"
  c_x :: "rat option"
  c_y :: "rat option"

datatype ConnectionKind = DC | AC | GROUND

record Connection =
  conn_from :: string
  conn_to :: string
  conn_label :: string
  conn_type :: ConnectionKind

section \<open>Layout constants and node metrics\<close>

definition MIN_CANVAS_HEIGHT :: rat where
  "MIN_CANVAS_HEIGHT = 1000"

definition BASE_NODE_HEIGHT :: rat where
  "BASE_NODE_HEIGHT = 100"

definition LEVEL_WIDTH :: rat where
  "LEVEL_WIDTH = 180"

definition GRID_SNAP :: rat where
  "GRID_SNAP = 20"

fun LEVEL_MAP :: "ComponentType \<Rightarrow> rat" where
  "LEVEL_MAP PV_ARRAY = 0"
| "LEVEL_MAP DC_COMBINER = 1"
| "LEVEL_MAP DC_SPD = 6 / 5"
| "LEVEL_MAP DC_BREAKER = 3 / 2"
| "LEVEL_MAP INVERTER = 2"
| "LEVEL_MAP AC_BREAKER = 5 / 2"
| "LEVEL_MAP AC_SPD = 14 / 5"
| "LEVEL_MAP AC_DISTRIBUTION = 3"
| "LEVEL_MAP LOAD = 7 / 2"
| "LEVEL_MAP METER = 4"
| "LEVEL_MAP GRID = 5"

definition getLevelX :: "ComponentType \<Rightarrow> rat" where
  "getLevelX t = 100 + LEVEL_MAP t * LEVEL_WIDTH"

definition getNodeHeight :: "SolarComponent \<Rightarrow> rat" where
  "getNodeHeight component = BASE_NODE_HEIGHT + of_nat (length (c_specs component)) * 15"

text \<open>\<^verbatim>\<open>Math.round\<close> rounds to the nearest integer, a half towards plus infinity.\<close>

definition js_round :: "rat \<Rightarrow> rat" where
  "js_round v = of_int \<lfloor>v + 1 / 2\<rfloor>"

definition snap :: "rat \<Rightarrow> rat" where
  "snap v = js_round (v / GRID_SNAP) * GRID_SNAP"

section \<open>Topology: the children and parent maps\<close>

type_synonym children_map = "string \<rightharpoonup> string list"
type_synonym parent_map = "string \<rightharpoonup> string"

definition findComponent :: "SolarComponent list \<Rightarrow> string \<Rightarrow> SolarComponent option" where
  "findComponent components i = find (\<lambda>c. c_id c = i) components"

text \<open>\<^verbatim>\<open>LEVEL_MAP[components.find(c => c.id === id)?.type || ''] || 0\<close>\<close>

definition levelOfId :: "SolarComponent list \<Rightarrow> string \<Rightarrow> rat" where
  "levelOfId components i =
     (case findComponent components i of None \<Rightarrow> 0 | Some c \<Rightarrow> LEVEL_MAP (c_type c))"

definition isLoad :: "SolarComponent list \<Rightarrow> string \<Rightarrow> bool" where
  "isLoad components i =
     (case findComponent components i of None \<Rightarrow> False | Some c \<Rightarrow> c_type c = LOAD)"

text \<open>
  The pair (parent, child) one connection resolves to: \<open>to\<close> is the parent and
  \<open>from\<close> the child, swapped when the parent's level is strictly lower and the
  child is not a load.
\<close>

definition resolveDirection :: "SolarComponent list \<Rightarrow> Connection \<Rightarrow> string \<times> string" where
  "resolveDirection components conn =
     (let parent = conn_to conn;
          child = conn_from conn;
          pLevel = levelOfId components parent;
          cLevel = levelOfId components child
      in if pLevel < cLevel \<and> \<not> isLoad components child then (child, parent)
         else (parent, child))"

text \<open>The body of \<^verbatim>\<open>connections.forEach\<close>, on the two maps.\<close>

definition addConnection ::
  "SolarComponent list \<Rightarrow> children_map \<times> parent_map \<Rightarrow> Connection \<Rightarrow> children_map \<times> parent_map"
where
  "addConnection components maps conn =
     (case resolveDirection components conn of (parent, child) \<Rightarrow>
        (case fst maps parent of
           Some kids \<Rightarrow> ((fst maps)(parent \<mapsto> kids @ [child]), (snd maps)(child \<mapsto> parent))
         | None \<Rightarrow> maps))"

definition initChildren :: "SolarComponent list \<Rightarrow> children_map" where
  "initChildren components = foldl (\<lambda>m c. m(c_id c \<mapsto> [])) Map.empty components"

definition buildMaps :: "SolarComponent list \<Rightarrow> Connection list \<Rightarrow> children_map \<times> parent_map" where
  "buildMaps components connections =
     foldl (addConnection components) (initChildren components, Map.empty) connections"

text \<open>\<^verbatim>\<open>childrenMap.get(nodeId) || []\<close>\<close>

definition childrenOf :: "children_map \<Rightarrow> string \<Rightarrow> string list" where
  "childrenOf childrenMap nodeId = (case childrenMap nodeId of None \<Rightarrow> [] | Some kids \<Rightarrow> kids)"

text \<open>
  The roots, in the order of the stable sort by descending level
  (\<^verbatim>\<open>(LEVEL_MAP[b.type] || 0) - (LEVEL_MAP[a.type] || 0)\<close>).
\<close>

definition rootsOf :: "SolarComponent list \<Rightarrow> parent_map \<Rightarrow> SolarComponent list" where
  "rootsOf components parentMap =
     sort_key (\<lambda>c. - LEVEL_MAP (c_type c)) (filter (\<lambda>c. parentMap (c_id c) = None) components)"

section \<open>Subtree heights\<close>

text \<open>
  \<^verbatim>\<open>calcHeight\<close> recurses through the children map with a memo table that is
  written only after the children have been visited. The recursion depth is the
  first argument: with depth 0 left the call does not return (the call stack is
  exhausted), which is the value \<open>None\<close>. The memo table is passed in and
  returned.
\<close>

type_synonym height_map = "string \<rightharpoonup> rat"

fun sumHeights ::
  "(string \<Rightarrow> height_map \<Rightarrow> (rat \<times> height_map) option) \<Rightarrow> string list \<Rightarrow> rat \<Rightarrow> height_map
     \<Rightarrow> (rat \<times> height_map) option"
where
  "sumHeights call [] s memo = Some (s, memo)"
| "sumHeights call (childId # rest) s memo =
     (case call childId memo of
        None \<Rightarrow> None
      | Some (h, memo') \<Rightarrow> sumHeights call rest (s + h) memo')"

primrec calcHeight ::
  "nat \<Rightarrow> SolarComponent list \<Rightarrow> children_map \<Rightarrow> string \<Rightarrow> height_map \<Rightarrow> (rat \<times> height_map) option"
where
  "calcHeight 0 components childrenMap nodeId memo = None"
| "calcHeight (Suc depth) components childrenMap nodeId memo =
     (case memo nodeId of
        Some h \<Rightarrow> Some (h, memo)
      | None \<Rightarrow>
          (let myHeight = (case findComponent components nodeId of
                             Some node \<Rightarrow> getNodeHeight node
                           | None \<Rightarrow> BASE_NODE_HEIGHT);
               children = childrenOf childrenMap nodeId
           in if children = [] then Some (myHeight, memo(nodeId \<mapsto> myHeight))
              else (case sumHeights (calcHeight depth components childrenMap) children 0 memo of
                      None \<Rightarrow> None
                    | Some (childrenTotalHeight, memo') \<Rightarrow>
                        (let val = max myHeight childrenTotalHeight
                         in Some (val, memo'(nodeId \<mapsto> val))))))"

text \<open>\<^verbatim>\<open>roots.forEach(r => calcHeight(r.id))\<close>\<close>

fun calcRootHeights ::
  "nat \<Rightarrow> SolarComponent list \<Rightarrow> children_map \<Rightarrow> SolarComponent list \<Rightarrow> height_map
     \<Rightarrow> height_map option"
where
  "calcRootHeights depth components childrenMap [] memo = Some memo"
| "calcRootHeights depth components childrenMap (r # rest) memo =
     (case calcHeight depth components childrenMap (c_id r) memo of
        None \<Rightarrow> None
      | Some (h, memo') \<Rightarrow> calcRootHeights depth components childrenMap rest memo')"

section \<open>Position assignment\<close>

text \<open>
  \<^verbatim>\<open>assignPosition\<close> writes the position of a node and walks its children in
  sorted order. A height read with \<^verbatim>\<open>subtreeHeights.get(id)!\<close> that is missing
  would yield NaN; the model has no such number and gives no result there.
\<close>

type_synonym position_map = "string \<rightharpoonup> rat \<times> rat"

fun placeChildren ::
  "(string \<Rightarrow> rat \<Rightarrow> position_map \<Rightarrow> position_map option) \<Rightarrow> height_map \<Rightarrow> string list \<Rightarrow> rat
     \<Rightarrow> position_map \<Rightarrow> position_map option"
where
  "placeChildren call subtreeHeights [] startY positions = Some positions"
| "placeChildren call subtreeHeights (childId # rest) startY positions =
     (case subtreeHeights childId of
        None \<Rightarrow> None
      | Some childHeight \<Rightarrow>
          (case call childId (startY + childHeight / 2) positions of
             None \<Rightarrow> None
           | Some positions' \<Rightarrow>
               placeChildren call subtreeHeights rest (startY + childHeight) positions'))"

primrec assignPosition ::
  "nat \<Rightarrow> SolarComponent list \<Rightarrow> children_map \<Rightarrow> height_map \<Rightarrow> string \<Rightarrow> rat \<Rightarrow> position_map
     \<Rightarrow> position_map option"
where
  "assignPosition 0 components childrenMap subtreeHeights nodeId centerY positions = None"
| "assignPosition (Suc depth) components childrenMap subtreeHeights nodeId centerY positions =
     (case findComponent components nodeId of
        None \<Rightarrow> Some positions
      | Some node \<Rightarrow>
          (let x = (case c_x node of None \<Rightarrow> getLevelX (c_type node) | Some v \<Rightarrow> v);
               y = (case c_y node of None \<Rightarrow> centerY | Some v \<Rightarrow> v);
               positions1 = positions(nodeId \<mapsto> (x, y));
               children = childrenOf childrenMap nodeId
           in if children = [] then Some positions1
              else (case subtreeHeights nodeId of
                      None \<Rightarrow> None
                    | Some h \<Rightarrow>
                        placeChildren (assignPosition depth components childrenMap subtreeHeights)
                          subtreeHeights (sort children) (centerY - h / 2) positions1)))"

text \<open>\<^verbatim>\<open>roots.forEach\<close> with the running cursor \<^verbatim>\<open>currentRootY\<close>.\<close>

fun placeRoots ::
  "nat \<Rightarrow> SolarComponent list \<Rightarrow> children_map \<Rightarrow> height_map \<Rightarrow> SolarComponent list \<Rightarrow> rat
     \<Rightarrow> position_map \<Rightarrow> (position_map \<times> rat) option"
where
  "placeRoots depth components childrenMap subtreeHeights [] currentRootY positions =
     Some (positions, currentRootY)"
| "placeRoots depth components childrenMap subtreeHeights (r # rest) currentRootY positions =
     (case subtreeHeights (c_id r) of
        None \<Rightarrow> None
      | Some h \<Rightarrow>
          (case assignPosition depth components childrenMap subtreeHeights (c_id r)
                  (currentRootY + h / 2) positions of
             None \<Rightarrow> None
           | Some positions' \<Rightarrow>
               placeRoots depth components childrenMap subtreeHeights rest
                 (currentRootY + (h + 40)) positions'))"

section \<open>The layout function\<close>

record LayoutResult =
  layoutedComponents :: "SolarComponent list"
  totalHeight :: rat

definition allHavePos :: "SolarComponent list \<Rightarrow> bool" where
  "allHavePos components = list_all (\<lambda>c. c_x c \<noteq> None \<and> c_y c \<noteq> None) components"

text \<open>The largest y of the list, starting from 0; a missing y never exceeds it.\<close>

definition maxYOf :: "SolarComponent list \<Rightarrow> rat" where
  "maxYOf components =
     foldl (\<lambda>maxY c. case c_y c of Some v \<Rightarrow> (if v > maxY then v else maxY) | None \<Rightarrow> maxY)
       0 components"

text \<open>The positions map after both passes, with the final root cursor.\<close>

definition computePositions ::
  "nat \<Rightarrow> SolarComponent list \<Rightarrow> Connection list \<Rightarrow> (position_map \<times> rat) option"
where
  "computePositions depth components connections =
     (let maps = buildMaps components connections;
          childrenMap = fst maps;
          parentMap = snd maps;
          roots = rootsOf components parentMap
      in case calcRootHeights depth components childrenMap roots Map.empty of
           None \<Rightarrow> None
         | Some subtreeHeights \<Rightarrow>
             placeRoots depth components childrenMap subtreeHeights roots 100 Map.empty)"

text \<open>\<^verbatim>\<open>positions.get(c.id) || { x: 0, y: 0 }\<close>\<close>

definition lookupPosition :: "position_map \<Rightarrow> string \<Rightarrow> rat \<times> rat" where
  "lookupPosition positions i = (case positions i of Some p \<Rightarrow> p | None \<Rightarrow> (0, 0))"

definition placeComponent :: "position_map \<Rightarrow> SolarComponent \<Rightarrow> SolarComponent" where
  "placeComponent positions c =
     (let pos = lookupPosition positions (c_id c);
          snappedX = snap (fst pos);
          snappedY = snap (snd pos)
      in c\<lparr>c_x := Some snappedX, c_y := Some snappedY\<rparr>)"

definition calculateSmartLayout ::
  "nat \<Rightarrow> SolarComponent list \<Rightarrow> Connection list \<Rightarrow> LayoutResult option"
where
  "calculateSmartLayout depth components connections =
     (if allHavePos components then
        Some \<lparr>layoutedComponents = components,
              totalHeight = max MIN_CANVAS_HEIGHT (maxYOf components + 200)\<rparr>
      else
        (case computePositions depth components connections of
           None \<Rightarrow> None
         | Some (positions, totalContentHeight) \<Rightarrow>
             Some \<lparr>layoutedComponents = map (placeComponent positions) components,
                   totalHeight = max MIN_CANVAS_HEIGHT (totalContentHeight + 100)\<rparr>))"

section \<open>Rendering guard and zoom\<close>

text \<open>
  A connection is drawn only when both of its endpoints are found among the placed
  components (\<^verbatim>\<open>if (!fromNode || !toNode) return null\<close>).
\<close>

definition rendersEdge :: "SolarComponent list \<Rightarrow> Connection \<Rightarrow> bool" where
  "rendersEdge placed conn =
     (findComponent placed (conn_from conn) \<noteq> None \<and> findComponent placed (conn_to conn) \<noteq> None)"



section \<open>Predicates on the positions map\<close>

text \<open>
  An entry of the positions map fits a component when its x is the component's own
  x, or the x of its level where the component has none, and its y is the
  component's own y where it has one.
\<close>

definition positionFits :: "SolarComponent \<Rightarrow> rat \<times> rat \<Rightarrow> bool" where
  "positionFits node p \<longleftrightarrow>
     fst p = (case c_x node of None \<Rightarrow> getLevelX (c_type node) | Some v \<Rightarrow> v)
   \<and> (case c_y node of None \<Rightarrow> True | Some v \<Rightarrow> snd p = v)"

definition positionsFit :: "SolarComponent list \<Rightarrow> position_map \<Rightarrow> bool" where
  "positionsFit cs positions \<longleftrightarrow>
     (\<forall>i p. positions i = Some p \<longrightarrow>
        (\<exists>node. findComponent cs i = Some node \<and> positionFits node p))"

text \<open>
  A children map is ranked by \<open>rk\<close> when every child has a smaller rank than its
  parent, so that no chain of children returns to its start. A memo table is closed
  when it holds the children of every node it holds.
\<close>

definition ranked :: "children_map \<Rightarrow> (string \<Rightarrow> nat) \<Rightarrow> bool" where
  "ranked childrenMap rk \<longleftrightarrow>
     (\<forall>p c. c \<in> set (childrenOf childrenMap p) \<longrightarrow> rk c < rk p)"

definition heightsClosed :: "children_map \<Rightarrow> height_map \<Rightarrow> bool" where
  "heightsClosed childrenMap memo \<longleftrightarrow>
     (\<forall>n \<in> dom memo. set (childrenOf childrenMap n) \<subseteq> dom memo)"

section \<open>Example diagrams\<close>

text \<open>Concrete inputs on which the statements below are evaluated.\<close>

definition mkComponent ::
  "string \<Rightarrow> ComponentType \<Rightarrow> rat option \<Rightarrow> rat option \<Rightarrow> SolarComponent"
where
  "mkComponent i t a b =
     \<lparr>c_id = i, c_type = t, c_label = i, c_specs = [], c_x = a, c_y = b\<rparr>"

definition mkConnection :: "string \<Rightarrow> string \<Rightarrow> Connection" where
  "mkConnection a b =
     \<lparr>conn_from = a, conn_to = b, conn_label = ''cable'', conn_type = DC\<rparr>"

text \<open>Two components that both carry a position.\<close>

definition pinned_pair :: "SolarComponent list" where
  "pinned_pair =
     [mkComponent ''inv'' INVERTER (Some 463) (Some 1207),
      mkComponent ''grid'' GRID (Some 1000) (Some 160)]"

text \<open>An inverter feeding the grid, neither positioned.\<close>

definition two_stage :: "SolarComponent list" where
  "two_stage = [mkComponent ''a'' GRID None None, mkComponent ''b'' INVERTER None None]"


text \<open>The initial document of the application: the utility grid alone.\<close>

definition initial_components :: "SolarComponent list" where
  "initial_components =
     [\<lparr>c_id = ''grid'', c_type = GRID, c_label = ''Utility Grid'', c_specs = [''380V / 50Hz''],
       c_x = None, c_y = None\<rparr>]"

definition initial_layout :: LayoutResult where
  "initial_layout =
     \<lparr>layoutedComponents =
        [\<lparr>c_id = ''grid'', c_type = GRID, c_label = ''Utility Grid'',
          c_specs = [''380V / 50Hz''], c_x = Some 1000, c_y = Some 160\<rparr>],
      totalHeight = 1000\<rparr>"

text \<open>An inverter wired to two higher stages, and a solar array.\<close>

definition two_feeders :: "SolarComponent list" where
  "two_feeders =
     [mkComponent ''p1'' GRID None None, mkComponent ''p2'' METER None None,
      mkComponent ''c'' INVERTER None None, mkComponent ''pv'' PV_ARRAY None None]"

text \<open>An inverter and a load.\<close>

definition inverter_to_load :: "SolarComponent list" where
  "inverter_to_load =
     [mkComponent ''inv'' INVERTER None None, mkComponent ''ld'' LOAD None None]"

text \<open>
  Two inverters of equal rank wired to each other in both directions, one of them
  wired to the grid.
\<close>

definition parallel_inverters :: "SolarComponent list" where
  "parallel_inverters =
     [mkComponent ''grid'' GRID None None, mkComponent ''inv1'' INVERTER None None,
      mkComponent ''inv2'' INVERTER None None]"

definition parallel_wiring :: "Connection list" where
  "parallel_wiring =
     [mkConnection ''inv1'' ''inv2'', mkConnection ''inv2'' ''inv1'',
      mkConnection ''inv1'' ''grid'']"



text \<open>A grid pinned off the snapping grid, and one pinned on it.\<close>

definition off_grid_pin :: "SolarComponent list" where
  "off_grid_pin =
     [mkComponent ''a'' GRID (Some 105) (Some 33), mkComponent ''b'' INVERTER None None]"

definition pinned_grid :: "SolarComponent list" where
  "pinned_grid =
     [mkComponent ''a'' GRID (Some 1000) (Some 400), mkComponent ''b'' INVERTER None None]"

definition pinned_grid_layout :: LayoutResult where
  "pinned_grid_layout =
     \<lparr>layoutedComponents =
        [mkComponent ''a'' GRID (Some 1000) (Some 400),
         mkComponent ''b'' INVERTER (Some 460) (Some 160)],
      totalHeight = 1000\<rparr>"

text \<open>The two-stage diagram with one more connection, from an id that is no component.\<close>

definition ghost_wiring :: "Connection list" where
  "ghost_wiring = [mkConnection ''b'' ''a'', mkConnection ''ghost'' ''a'']"

definition ghost_layout :: LayoutResult where
  "ghost_layout =
     \<lparr>layoutedComponents =
        [mkComponent ''a'' GRID (Some 1000) (Some 200),
         mkComponent ''b'' INVERTER (Some 460) (Some 160)],
      totalHeight = 1000\<rparr>"

definition two_stage_rank :: "string \<Rightarrow> nat" where
  "two_stage_rank i = (if i = ''a'' then 1 else 0)"

section \<open>Basic facts about the layout function\<close>

lemma allHavePos_iff: "allHavePos cs \<longleftrightarrow> (\<forall>c \<in> set cs. c_x c \<noteq> None \<and> c_y c \<noteq> None)"
  by (simp add: allHavePos_def list_all_iff)

lemma placeComponent_fields:
  "c_id (placeComponent p c) = c_id c" "c_type (placeComponent p c) = c_type c"
  "c_label (placeComponent p c) = c_label c" "c_specs (placeComponent p c) = c_specs c"
  by (simp_all add: placeComponent_def Let_def)

lemma placeComponent_xy:
  "c_x (placeComponent p c) = Some (snap (fst (lookupPosition p (c_id c))))"
  "c_y (placeComponent p c) = Some (snap (snd (lookupPosition p (c_id c))))"
  by (simp_all add: placeComponent_def Let_def)

text \<open>A returned layout comes from one of the two paths of the function.\<close>

lemma layout_cases:
  assumes "calculateSmartLayout depth components connections = Some res"
  shows "(allHavePos components \<and> layoutedComponents res = components)
       \<or> (\<not> allHavePos components \<and> (\<exists>positions h.
             computePositions depth components connections = Some (positions, h)
           \<and> layoutedComponents res = map (placeComponent positions) components
           \<and> totalHeight res = max MIN_CANVAS_HEIGHT (h + 100)))"
  using assms by (auto simp: calculateSmartLayout_def split: if_splits option.splits)

lemma snap_multiple: "\<exists>k::int. snap v = of_int k * GRID_SNAP"
  by (auto simp: snap_def js_round_def)

lemma findComponent_None_iff: "findComponent cs i = None \<longleftrightarrow> i \<notin> c_id ` set cs"
  by (auto simp: findComponent_def find_None_iff)

text \<open>The keys of the children map are the component ids, whatever the connections.\<close>

lemma dom_foldl_init:
  "dom (foldl (\<lambda>m c. m(c_id c \<mapsto> [])) m0 cs) = dom m0 \<union> c_id ` set cs"
  by (induction cs arbitrary: m0) auto

lemma dom_initChildren: "dom (initChildren cs) = c_id ` set cs"
  by (simp add: initChildren_def dom_foldl_init)

lemma dom_addConnection: "dom (fst (addConnection cs m conn)) = dom (fst m)"
  by (auto simp: addConnection_def split: prod.splits option.splits)

lemma dom_foldl_addConnection: "dom (fst (foldl (addConnection cs) m conns)) = dom (fst m)"
  by (induction conns arbitrary: m) (simp_all add: dom_addConnection)

lemma dom_buildMaps: "dom (fst (buildMaps cs conns)) = c_id ` set cs"
  by (simp add: buildMaps_def dom_foldl_addConnection dom_initChildren)

lemma buildMaps_snoc:
  "buildMaps cs (conns @ [conn]) = addConnection cs (buildMaps cs conns) conn"
  by (simp add: buildMaps_def)

lemma snap_zero: "snap 0 = 0"
  by (simp add: snap_def js_round_def floor_eq_iff)

lemma snap_of_multiple: "snap (of_int k * 20) = of_int k * 20"
  by (simp add: snap_def js_round_def GRID_SNAP_def floor_eq_iff)

lemma placeComponent_unreached:
  "positions (c_id c) = None \<Longrightarrow>
     placeComponent positions c = c\<lparr>c_x := Some 0, c_y := Some 0\<rparr>"
  by (simp add: placeComponent_def lookupPosition_def snap_zero)


lemma layout_ids:
  "calculateSmartLayout depth components connections = Some res \<Longrightarrow>
     map c_id (layoutedComponents res) = map c_id components"
  by (drule layout_cases) (auto simp: placeComponent_fields)

lemma layout_positioned:
  "calculateSmartLayout depth components connections = Some res \<Longrightarrow>
     \<forall>c \<in> set (layoutedComponents res). c_x c \<noteq> None \<and> c_y c \<noteq> None"
  by (drule layout_cases) (auto simp: placeComponent_xy allHavePos_iff)

lemma addConnection_skip:
  "resolveDirection cs conn = (parent, child) \<Longrightarrow> fst m parent = None
     \<Longrightarrow> addConnection cs m conn = m"
  by (simp add: addConnection_def)

lemma buildMaps_skip:
  assumes "resolveDirection cs conn = (parent, child)" and "parent \<notin> c_id ` set cs"
  shows "buildMaps cs (pre @ conn # post) = buildMaps cs (pre @ post)"
proof -
  have "fst (buildMaps cs pre) parent = None"
    using assms(2) dom_buildMaps [of cs pre] by (auto simp: dom_def)
  then have "addConnection cs (buildMaps cs pre) conn = buildMaps cs pre"
    using assms(1) by (simp add: addConnection_skip)
  then show ?thesis by (simp add: buildMaps_def)
qed

lemma childrenOf_missing:
  "i \<notin> c_id ` set cs \<Longrightarrow> childrenOf (fst (buildMaps cs conns)) i = []"
  using dom_buildMaps [of cs conns] by (auto simp: childrenOf_def dom_def split: option.splits)

lemma resolveDirection_endpoints:
  "resolveDirection cs conn = (parent, child) \<Longrightarrow>
     (parent = conn_to conn \<and> child = conn_from conn)
   \<or> (parent = conn_from conn \<and> child = conn_to conn)"
  by (auto simp: resolveDirection_def Let_def split: if_splits)

section \<open>Idempotence on fully positioned input\<close>

text \<open>
  Claim C1. When every component already has both x and y, the layout returns the
  component list itself: same components in the same order with every field,
  x and y included, untouched, whatever the connections are. Only the total
  height is computed, as the larger of the minimum canvas height and the
  largest y plus 200.
\<close>

theorem layout_idempotent:
  assumes "\<forall>c \<in> set components. c_x c \<noteq> None \<and> c_y c \<noteq> None"
  shows "calculateSmartLayout depth components connections =
           Some \<lparr>layoutedComponents = components,
                 totalHeight = max MIN_CANVAS_HEIGHT (maxYOf components + 200)\<rparr>"
  using assms by (simp add: calculateSmartLayout_def allHavePos_iff)

theorem layout_idempotent_witness:
  "allHavePos pinned_pair
   \<and> calculateSmartLayout 0 pinned_pair [mkConnection ''inv'' ''grid''] =
       Some \<lparr>layoutedComponents = pinned_pair, totalHeight = 1407\<rparr>"
proof -
  have h: "\<forall>c \<in> set pinned_pair. c_x c \<noteq> None \<and> c_y c \<noteq> None"
    by (simp add: pinned_pair_def mkComponent_def)
  have m: "max MIN_CANVAS_HEIGHT (maxYOf pinned_pair + 200) = 1407"
    by (simp add: pinned_pair_def mkComponent_def maxYOf_def MIN_CANVAS_HEIGHT_def)
  from layout_idempotent [OF h, of 0 "[mkConnection ''inv'' ''grid'']"] h m show ?thesis
    by (simp add: allHavePos_iff)
qed

section \<open>Zoom\<close>





section \<open>Grid snapping\<close>

text \<open>
  Claim C8. On the path that recomputes positions (some component lacks a
  coordinate), both coordinates of every component of a returned layout are
  \<open>round(raw / 20) * 20\<close> for the raw position found in the positions map (or the
  origin), hence integer multiples of 20. This covers every component, the ones
  whose position was computed included.
\<close>

theorem snap_invariant:
  assumes "\<not> allHavePos components"
    and "calculateSmartLayout depth components connections = Some res"
    and "i < length components"
  shows "\<exists>positions h. computePositions depth components connections = Some (positions, h)
       \<and> c_x (layoutedComponents res ! i) =
           Some (js_round (fst (lookupPosition positions (c_id (components ! i))) / GRID_SNAP)
                   * GRID_SNAP)
       \<and> c_y (layoutedComponents res ! i) =
           Some (js_round (snd (lookupPosition positions (c_id (components ! i))) / GRID_SNAP)
                   * GRID_SNAP)
       \<and> (\<exists>kx ky :: int. c_x (layoutedComponents res ! i) = Some (of_int kx * 20)
                       \<and> c_y (layoutedComponents res ! i) = Some (of_int ky * 20))"
proof -
  from layout_cases [OF assms(2)] assms(1)
  obtain positions h where
    cp: "computePositions depth components connections = Some (positions, h)" and
    out: "layoutedComponents res = map (placeComponent positions) components"
    by auto
  let ?c = "layoutedComponents res ! i"
  let ?raw = "lookupPosition positions (c_id (components ! i))"
  from out assms(3) have c: "?c = placeComponent positions (components ! i)"
    by simp
  have x: "c_x ?c = Some (snap (fst ?raw))" and y: "c_y ?c = Some (snap (snd ?raw))"
    by (simp_all add: c placeComponent_xy)
  obtain kx :: int where kx: "snap (fst ?raw) = of_int kx * GRID_SNAP"
    using snap_multiple by blast
  obtain ky :: int where ky: "snap (snd ?raw) = of_int ky * GRID_SNAP"
    using snap_multiple by blast
  have "\<exists>kx ky :: int. c_x ?c = Some (of_int kx * 20) \<and> c_y ?c = Some (of_int ky * 20)"
    using x y kx ky by (auto simp: GRID_SNAP_def)
  with cp x y show ?thesis
    by (auto simp: snap_def)
qed

theorem snap_invariant_witness:
  "\<not> allHavePos initial_components
   \<and> calculateSmartLayout 1 initial_components [] = Some initial_layout
   \<and> c_x (layoutedComponents initial_layout ! 0) = Some (50 * 20)
   \<and> c_y (layoutedComponents initial_layout ! 0) = Some (8 * 20)
   \<and> (\<exists>kx ky :: int. c_x (layoutedComponents initial_layout ! 0) = Some (of_int kx * 20)
                       \<and> c_y (layoutedComponents initial_layout ! 0) = Some (of_int ky * 20))"
proof -
  have a: "\<not> allHavePos initial_components" by code_simp
  have b: "calculateSmartLayout 1 initial_components [] = Some initial_layout" by code_simp
  have c: "0 < length initial_components" by (simp add: initial_components_def)
  have d: "c_x (layoutedComponents initial_layout ! 0) = Some (50 * 20)"
    "c_y (layoutedComponents initial_layout ! 0) = Some (8 * 20)"
    by (simp_all add: initial_layout_def)
  from snap_invariant [OF a b c] a b d show ?thesis by blast
qed

section \<open>The parent map\<close>




section \<open>Direction of a connection\<close>

text \<open>
  Claim C5, as stated, at a concrete input: a connection from an inverter to a
  load, both in the component list, resolves to the load as parent and the
  inverter as its child.
\<close>

theorem load_is_parent_counterexample:
  "findComponent inverter_to_load ''inv'' = Some (mkComponent ''inv'' INVERTER None None)
   \<and> findComponent inverter_to_load ''ld'' = Some (mkComponent ''ld'' LOAD None None)
   \<and> resolveDirection inverter_to_load (mkConnection ''inv'' ''ld'') = (''ld'', ''inv'')
   \<and> snd (buildMaps inverter_to_load [mkConnection ''inv'' ''ld'']) ''inv'' = Some ''ld''
   \<and> fst (buildMaps inverter_to_load [mkConnection ''inv'' ''ld'']) ''ld'' = Some [''inv'']"
  by code_simp

text \<open>
  Claim C5, amended. For a connection whose endpoints are both components, the
  \<open>to\<close> endpoint is the parent and the \<open>from\<close> endpoint the child, unless \<open>from\<close>
  has the strictly higher level and is not a load, in which case the two are
  swapped. So when \<open>from\<close> is not a load the parent's level is never below the
  child's; a load at \<open>from\<close> is always the child; a load at \<open>to\<close> whose level is
  not below the other's is the parent.
\<close>

theorem direction_by_rank:
  assumes "findComponent components (conn_from conn) = Some f"
    and "findComponent components (conn_to conn) = Some t"
  shows "resolveDirection components conn =
           (if LEVEL_MAP (c_type t) < LEVEL_MAP (c_type f) \<and> c_type f \<noteq> LOAD
            then (conn_from conn, conn_to conn) else (conn_to conn, conn_from conn))
       \<and> (c_type f \<noteq> LOAD \<longrightarrow>
            levelOfId components (snd (resolveDirection components conn))
              \<le> levelOfId components (fst (resolveDirection components conn)))
       \<and> (c_type f = LOAD \<longrightarrow>
            resolveDirection components conn = (conn_to conn, conn_from conn))
       \<and> (c_type t = LOAD \<and> LEVEL_MAP (c_type f) \<le> LEVEL_MAP LOAD \<longrightarrow>
            resolveDirection components conn = (conn_to conn, conn_from conn))"
  using assms
  by (auto simp: resolveDirection_def levelOfId_def isLoad_def Let_def)

theorem direction_by_rank_witness:
  "findComponent two_stage (conn_from (mkConnection ''a'' ''b'')) = Some (mkComponent ''a'' GRID None None)
   \<and> findComponent two_stage (conn_to (mkConnection ''a'' ''b'')) = Some (mkComponent ''b'' INVERTER None None)
   \<and> resolveDirection two_stage (mkConnection ''a'' ''b'') = (''a'', ''b'')
   \<and> findComponent inverter_to_load (conn_from (mkConnection ''ld'' ''inv''))
       = Some (mkComponent ''ld'' LOAD None None)
   \<and> findComponent inverter_to_load (conn_to (mkConnection ''ld'' ''inv''))
       = Some (mkComponent ''inv'' INVERTER None None)
   \<and> resolveDirection inverter_to_load (mkConnection ''ld'' ''inv'') = (''inv'', ''ld'')"
proof -
  have a: "findComponent two_stage (conn_from (mkConnection ''a'' ''b''))
             = Some (mkComponent ''a'' GRID None None)"
    and b: "findComponent two_stage (conn_to (mkConnection ''a'' ''b''))
             = Some (mkComponent ''b'' INVERTER None None)"
    and c: "findComponent inverter_to_load (conn_from (mkConnection ''ld'' ''inv''))
             = Some (mkComponent ''ld'' LOAD None None)"
    and d: "findComponent inverter_to_load (conn_to (mkConnection ''ld'' ''inv''))
             = Some (mkComponent ''inv'' INVERTER None None)"
    by code_simp+
  from direction_by_rank [OF a b] direction_by_rank [OF c d] a b c d show ?thesis
    by (simp add: mkComponent_def mkConnection_def)
qed

section \<open>Subtree heights on a cycle\<close>

lemma parallel_children:
  "childrenOf (fst (buildMaps parallel_inverters parallel_wiring)) ''grid'' = [''inv1'']"
  "childrenOf (fst (buildMaps parallel_inverters parallel_wiring)) ''inv1'' = [''inv2'']"
  "childrenOf (fst (buildMaps parallel_inverters parallel_wiring)) ''inv2'' = [''inv1'']"
  by code_simp+

lemma parallel_roots:
  "rootsOf parallel_inverters (snd (buildMaps parallel_inverters parallel_wiring))
     = [mkComponent ''grid'' GRID None None]"
  by code_simp

text \<open>
  Inside the cycle the memo table is still empty at every call, since a height is
  stored only after the children have returned.
\<close>

lemma parallel_cycle_no_return:
  "calcHeight depth parallel_inverters (fst (buildMaps parallel_inverters parallel_wiring))
     ''inv1'' Map.empty = None
 \<and> calcHeight depth parallel_inverters (fst (buildMaps parallel_inverters parallel_wiring))
     ''inv2'' Map.empty = None"
  by (induction depth) (simp_all add: parallel_children)

text \<open>
  Claim C6 on the code. Two inverters wired to each other in both directions form
  a cycle in the children map, and the connection of one of them to the grid makes
  the cycle reachable from the only root. The height of the root is then not
  computed with any recursion depth, and the layout returns nothing.
\<close>

theorem calcHeight_cycle_no_return:
  "\<not> allHavePos parallel_inverters
   \<and> (\<forall>depth. calcHeight depth parallel_inverters
                 (fst (buildMaps parallel_inverters parallel_wiring)) ''grid'' Map.empty = None)
   \<and> (\<forall>depth. calculateSmartLayout depth parallel_inverters parallel_wiring = None)"
proof -
  have a: "\<not> allHavePos parallel_inverters" by code_simp
  have b: "calcHeight depth parallel_inverters
             (fst (buildMaps parallel_inverters parallel_wiring)) ''grid'' Map.empty = None"
    for depth
    by (cases depth) (simp_all add: parallel_children parallel_cycle_no_return)
  have c: "calculateSmartLayout depth parallel_inverters parallel_wiring = None" for depth
    using a b [of depth]
    by (simp add: calculateSmartLayout_def computePositions_def Let_def parallel_roots mkComponent_def)
  from a b c show ?thesis by blast
qed

section \<open>Fallback placement\<close>



section \<open>Entries of the positions map\<close>

text \<open>Every entry the position assignment writes fits the component of that id.\<close>

lemma placeChildren_preserves:
  assumes "\<And>c y p p'. call c y p = Some p' \<Longrightarrow> P p \<Longrightarrow> P p'"
    and "placeChildren call sh ks sy pos = Some pos'" and "P pos"
  shows "P pos'"
  using assms(2,3)
proof (induction ks arbitrary: sy pos)
  case Nil
  then show ?case by simp
next
  case (Cons k ks)
  from Cons.prems(1) obtain ch p1 where
    "sh k = Some ch" and c: "call k (sy + ch / 2) pos = Some p1"
    and r: "placeChildren call sh ks (sy + ch) p1 = Some pos'"
    by (auto split: option.splits)
  from assms(1) [OF c Cons.prems(2)] have "P p1" .
  with Cons.IH r show ?case by blast
qed

lemma assignPosition_fit:
  "assignPosition d cs chm sh n cy pos = Some pos' \<Longrightarrow> positionsFit cs pos
     \<Longrightarrow> positionsFit cs pos'"
proof (induction d arbitrary: n cy pos pos')
  case 0
  then show ?case by simp
next
  case (Suc d)
  show ?case
  proof (cases "findComponent cs n")
    case None
    with Suc.prems show ?thesis by simp
  next
    case (Some node)
    let ?x = "case c_x node of None \<Rightarrow> getLevelX (c_type node) | Some v \<Rightarrow> v"
    let ?y = "case c_y node of None \<Rightarrow> cy | Some v \<Rightarrow> v"
    let ?p1 = "pos(n \<mapsto> (?x, ?y))"
    have fit1: "positionsFit cs ?p1"
      using Suc.prems(2) Some
      by (auto simp: positionsFit_def positionFits_def split: option.splits)
    show ?thesis
    proof (cases "childrenOf chm n = []")
      case True
      with Suc.prems(1) Some fit1 show ?thesis by (simp add: Let_def)
    next
      case False
      with Suc.prems(1) Some obtain h where
        "placeChildren (assignPosition d cs chm sh) sh (sort (childrenOf chm n)) (cy - h / 2) ?p1
           = Some pos'"
        by (auto simp: Let_def split: option.splits)
      then show ?thesis
        using fit1 Suc.IH
        by (rule placeChildren_preserves [where P = "positionsFit cs", rotated])
    qed
  qed
qed

lemma placeRoots_fit:
  "placeRoots d cs chm sh roots y pos = Some (pos', y') \<Longrightarrow> positionsFit cs pos
     \<Longrightarrow> positionsFit cs pos'"
proof (induction roots arbitrary: y pos)
  case Nil
  then show ?case by simp
next
  case (Cons r roots)
  from Cons.prems(1) obtain h p1 where
    a: "assignPosition d cs chm sh (c_id r) (y + h / 2) pos = Some p1"
    and b: "placeRoots d cs chm sh roots (y + (h + 40)) p1 = Some (pos', y')"
    by (auto split: option.splits)
  from assignPosition_fit [OF a Cons.prems(2)] Cons.IH [OF b] show ?case by blast
qed

lemma computePositions_fit:
  "computePositions d cs conns = Some (pos, h) \<Longrightarrow> positionsFit cs pos"
  by (auto simp: computePositions_def Let_def positionsFit_def split: option.splits
      dest!: placeRoots_fit)

lemma findComponent_distinct:
  "distinct (map c_id cs) \<Longrightarrow> i < length cs \<Longrightarrow> findComponent cs (c_id (cs ! i)) = Some (cs ! i)"
proof (induction cs arbitrary: i)
  case Nil
  then show ?case by simp
next
  case (Cons c cs)
  show ?case
  proof (cases i)
    case 0
    then show ?thesis by (simp add: findComponent_def)
  next
    case (Suc j)
    with Cons.prems have "c_id (cs ! j) \<in> c_id ` set cs" by auto
    with Cons.prems have "c_id (cs ! j) \<noteq> c_id c" by auto
    with Cons Suc show ?thesis by (auto simp: findComponent_def)
  qed
qed

section \<open>Pinned components on the recomputing path\<close>

text \<open>
  Claim C3, as stated, at a concrete input: the grid is pinned at (105, 33) and
  the inverter has no position, so positions are recomputed. The grid comes out
  at (100, 40), not at the coordinates it had.
\<close>

theorem manual_position_counterexample:
  "\<not> allHavePos off_grid_pin
   \<and> c_x (off_grid_pin ! 0) = Some 105 \<and> c_y (off_grid_pin ! 0) = Some 33
   \<and> calculateSmartLayout 2 off_grid_pin [] =
       Some \<lparr>layoutedComponents =
               [mkComponent ''a'' GRID (Some 100) (Some 40),
                mkComponent ''b'' INVERTER (Some 460) (Some 300)],
             totalHeight = 1000\<rparr>"
  by code_simp

text \<open>
  Claim C3, amended. On the recomputing path, with distinct ids, a component that
  has both x and y and is reached by the position assignment is output at its own
  coordinates rounded to the grid, \<open>round(x / 20) * 20\<close> and \<open>round(y / 20) * 20\<close>,
  so exactly at its own coordinates when they are multiples of 20; a component
  that is not reached is output at the origin.
\<close>

theorem manual_positions_snapped:
  assumes "\<not> allHavePos components"
    and "calculateSmartLayout depth components connections = Some res"
    and "distinct (map c_id components)"
    and "i < length components"
    and "c_x (components ! i) = Some vx" and "c_y (components ! i) = Some vy"
  shows "\<exists>positions h. computePositions depth components connections = Some (positions, h)
       \<and> (positions (c_id (components ! i)) \<noteq> None \<longrightarrow>
            layoutedComponents res ! i
              = (components ! i)\<lparr>c_x := Some (snap vx), c_y := Some (snap vy)\<rparr>)
       \<and> (positions (c_id (components ! i)) = None \<longrightarrow>
            layoutedComponents res ! i = (components ! i)\<lparr>c_x := Some 0, c_y := Some 0\<rparr>)
       \<and> ((\<exists>kx ky :: int. vx = of_int kx * 20 \<and> vy = of_int ky * 20) \<longrightarrow>
            snap vx = vx \<and> snap vy = vy)"
proof -
  from layout_cases [OF assms(2)] assms(1)
  obtain positions h where
    cp: "computePositions depth components connections = Some (positions, h)" and
    out: "layoutedComponents res = map (placeComponent positions) components"
    by auto
  let ?c = "components ! i"
  from out assms(4) have res: "layoutedComponents res ! i = placeComponent positions ?c"
    by simp
  have found: "findComponent components (c_id ?c) = Some ?c"
    using assms(3,4) by (rule findComponent_distinct)
  have reached: "layoutedComponents res ! i = ?c\<lparr>c_x := Some (snap vx), c_y := Some (snap vy)\<rparr>"
    if "positions (c_id ?c) \<noteq> None"
  proof -
    from that obtain p where p: "positions (c_id ?c) = Some p" by auto
    from computePositions_fit [OF cp] p obtain node where
      "findComponent components (c_id ?c) = Some node" and "positionFits node p"
      unfolding positionsFit_def by blast
    with found have "positionFits ?c p" by simp
    with assms(5,6) have "p = (vx, vy)"
      by (cases p) (simp add: positionFits_def)
    with p res show ?thesis
      by (simp add: placeComponent_def lookupPosition_def)
  qed
  have unreached: "layoutedComponents res ! i = ?c\<lparr>c_x := Some 0, c_y := Some 0\<rparr>"
    if "positions (c_id ?c) = None"
    using that res by (simp add: placeComponent_unreached)
  have multiples: "snap vx = vx \<and> snap vy = vy"
    if "\<exists>kx ky :: int. vx = of_int kx * 20 \<and> vy = of_int ky * 20"
    using that by (auto simp: snap_of_multiple)
  show ?thesis
  proof (intro exI conjI)
    show "computePositions depth components connections = Some (positions, h)"
      by (rule cp)
    show "positions (c_id ?c) \<noteq> None \<longrightarrow>
            layoutedComponents res ! i = ?c\<lparr>c_x := Some (snap vx), c_y := Some (snap vy)\<rparr>"
      using reached by (rule impI)
    show "positions (c_id ?c) = None \<longrightarrow>
            layoutedComponents res ! i = ?c\<lparr>c_x := Some 0, c_y := Some 0\<rparr>"
      using unreached by (rule impI)
    show "(\<exists>kx ky :: int. vx = of_int kx * 20 \<and> vy = of_int ky * 20) \<longrightarrow>
            snap vx = vx \<and> snap vy = vy"
      using multiples by (rule impI)
  qed
qed


theorem manual_positions_snapped_witness:
  "\<not> allHavePos pinned_grid
   \<and> calculateSmartLayout 2 pinned_grid [mkConnection ''b'' ''a''] = Some pinned_grid_layout
   \<and> distinct (map c_id pinned_grid)
   \<and> c_x (pinned_grid ! 0) = Some 1000 \<and> c_y (pinned_grid ! 0) = Some 400
   \<and> snap 1000 = 1000 \<and> snap 400 = 400
   \<and> layoutedComponents pinned_grid_layout ! 0
       = (pinned_grid ! 0)\<lparr>c_x := Some (snap 1000), c_y := Some (snap 400)\<rparr>"
proof -
  have a: "\<not> allHavePos pinned_grid" by code_simp
  have b: "calculateSmartLayout 2 pinned_grid [mkConnection ''b'' ''a''] = Some pinned_grid_layout"
    by code_simp
  have c: "distinct (map c_id pinned_grid)" by (simp add: pinned_grid_def mkComponent_def)
  have d: "0 < length pinned_grid" by (simp add: pinned_grid_def)
  have e: "c_x (pinned_grid ! 0) = Some 1000" and f: "c_y (pinned_grid ! 0) = Some 400"
    by (simp_all add: pinned_grid_def mkComponent_def)
  have k: "\<exists>kx ky :: int. (1000::rat) = of_int kx * 20 \<and> (400::rat) = of_int ky * 20"
    by (intro exI [of _ 50] exI [of _ 20]) simp
  from manual_positions_snapped [OF a b c d e f] k
  have s: "snap 1000 = 1000 \<and> snap 400 = 400" by blast
  have "layoutedComponents pinned_grid_layout ! 0
          = (pinned_grid ! 0)\<lparr>c_x := Some (snap 1000), c_y := Some (snap 400)\<rparr>"
    using s by (simp add: pinned_grid_layout_def pinned_grid_def mkComponent_def)
  with a b c e f s show ?thesis by blast
qed


section \<open>The recursion depth only bounds the stack\<close>

text \<open>
  A result obtained with some recursion depth is obtained, unchanged, with every
  larger depth: the depth decides whether the layout returns, never what it
  returns.
\<close>

lemma sumHeights_mono:
  assumes "\<And>c m r. call c m = Some r \<Longrightarrow> call' c m = Some r"
    and "sumHeights call ks s memo = Some res"
  shows "sumHeights call' ks s memo = Some res"
  using assms(2)
proof (induction ks arbitrary: s memo)
  case Nil
  then show ?case by simp
next
  case (Cons k ks)
  from Cons.prems obtain h m1 where
    c: "call k memo = Some (h, m1)" and r: "sumHeights call ks (s + h) m1 = Some res"
    by (auto split: option.splits)
  from assms(1) [OF c] Cons.IH [OF r] show ?case by simp
qed

lemma calcHeight_Suc:
  "calcHeight d cs chm n memo = Some res \<Longrightarrow> calcHeight (Suc d) cs chm n memo = Some res"
proof (induction d arbitrary: n memo res)
  case 0
  then show ?case by simp
next
  case (Suc d)
  show ?case
  proof (cases "memo n = None \<and> childrenOf chm n \<noteq> []")
    case False
    with Suc.prems show ?thesis by (auto simp: Let_def split: option.splits)
  next
    case True
    with Suc.prems obtain t m1 where
      s: "sumHeights (calcHeight d cs chm) (childrenOf chm n) 0 memo = Some (t, m1)"
      by (auto simp: Let_def split: option.splits)
    from sumHeights_mono [OF Suc.IH s]
    have "sumHeights (calcHeight (Suc d) cs chm) (childrenOf chm n) 0 memo = Some (t, m1)" .
    with s True Suc.prems show ?thesis
      by (simp add: Let_def)
  qed
qed

lemma calcRootHeights_Suc:
  "calcRootHeights d cs chm roots memo = Some sh
     \<Longrightarrow> calcRootHeights (Suc d) cs chm roots memo = Some sh"
proof (induction roots arbitrary: memo)
  case Nil
  then show ?case by simp
next
  case (Cons r roots)
  from Cons.prems obtain h m1 where
    c: "calcHeight d cs chm (c_id r) memo = Some (h, m1)"
    and r: "calcRootHeights d cs chm roots m1 = Some sh"
    by (auto split: option.splits)
  from calcHeight_Suc [OF c] Cons.IH [OF r] show ?case by simp
qed

lemma placeChildren_mono:
  assumes "\<And>c y p r. call c y p = Some r \<Longrightarrow> call' c y p = Some r"
    and "placeChildren call sh ks sy pos = Some res"
  shows "placeChildren call' sh ks sy pos = Some res"
  using assms(2)
proof (induction ks arbitrary: sy pos)
  case Nil
  then show ?case by simp
next
  case (Cons k ks)
  from Cons.prems obtain ch p1 where
    h: "sh k = Some ch" and c: "call k (sy + ch / 2) pos = Some p1"
    and r: "placeChildren call sh ks (sy + ch) p1 = Some res"
    by (auto split: option.splits)
  from h assms(1) [OF c] Cons.IH [OF r] show ?case by simp
qed

lemma assignPosition_Suc:
  "assignPosition d cs chm sh n cy pos = Some res
     \<Longrightarrow> assignPosition (Suc d) cs chm sh n cy pos = Some res"
proof (induction d arbitrary: n cy pos res)
  case 0
  then show ?case by simp
next
  case (Suc d)
  show ?case
  proof (cases "findComponent cs n")
    case None
    with Suc.prems show ?thesis by simp
  next
    case (Some node)
    show ?thesis
    proof (cases "childrenOf chm n = []")
      case True
      with Some Suc.prems show ?thesis by (simp add: Let_def)
    next
      case False
      let ?p1 = "pos(n \<mapsto> (case c_x node of None \<Rightarrow> getLevelX (c_type node) | Some v \<Rightarrow> v,
                             case c_y node of None \<Rightarrow> cy | Some v \<Rightarrow> v))"
      from False Some Suc.prems obtain h where
        h: "sh n = Some h"
        and p: "placeChildren (assignPosition d cs chm sh) sh (sort (childrenOf chm n))
                  (cy - h / 2) ?p1 = Some res"
        by (auto simp: Let_def split: option.splits)
      from placeChildren_mono [OF Suc.IH p]
      have "placeChildren (assignPosition (Suc d) cs chm sh) sh (sort (childrenOf chm n))
              (cy - h / 2) ?p1 = Some res" .
      with False Some h show ?thesis by (simp add: Let_def)
    qed
  qed
qed

lemma placeRoots_Suc:
  "placeRoots d cs chm sh roots y pos = Some res
     \<Longrightarrow> placeRoots (Suc d) cs chm sh roots y pos = Some res"
proof (induction roots arbitrary: y pos)
  case Nil
  then show ?case by simp
next
  case (Cons r roots)
  from Cons.prems obtain h p1 where
    h: "sh (c_id r) = Some h"
    and a: "assignPosition d cs chm sh (c_id r) (y + h / 2) pos = Some p1"
    and b: "placeRoots d cs chm sh roots (y + (h + 40)) p1 = Some res"
    by (auto split: option.splits)
  from h assignPosition_Suc [OF a] Cons.IH [OF b] show ?case by simp
qed

lemma computePositions_Suc:
  assumes "computePositions d cs conns = Some res"
  shows "computePositions (Suc d) cs conns = Some res"
proof -
  let ?chm = "fst (buildMaps cs conns)"
  let ?roots = "rootsOf cs (snd (buildMaps cs conns))"
  from assms obtain sh where
    h: "calcRootHeights d cs ?chm ?roots Map.empty = Some sh"
    and p: "placeRoots d cs ?chm sh ?roots 100 Map.empty = Some res"
    by (auto simp: computePositions_def Let_def split: option.splits)
  from calcRootHeights_Suc [OF h] placeRoots_Suc [OF p] show ?thesis
    by (simp add: computePositions_def Let_def)
qed

lemma layout_Suc:
  "calculateSmartLayout d cs conns = Some res
     \<Longrightarrow> calculateSmartLayout (Suc d) cs conns = Some res"
  by (auto simp: calculateSmartLayout_def split: if_splits option.splits
      dest: computePositions_Suc)

lemma layout_depth_mono:
  "calculateSmartLayout d cs conns = Some res
     \<Longrightarrow> calculateSmartLayout (d + k) cs conns = Some res"
  by (induction k) (simp_all add: layout_Suc)

section \<open>The layout returns on acyclic input\<close>

text \<open>
  With a ranked children map and a recursion depth above every rank, both passes
  return: the heights of all roots are computed, the memo table then holds every
  node the position assignment visits, and the assignment returns as well.
\<close>

lemma sumHeights_returns:
  assumes "\<And>c memo. c \<in> set ks \<Longrightarrow> \<exists>r. call c memo = Some r"
  shows "\<exists>r. sumHeights call ks s memo = Some r"
  using assms
proof (induction ks arbitrary: s memo)
  case Nil
  then show ?case by simp
next
  case (Cons k ks)
  from Cons.prems [of k memo] obtain h m1 where "call k memo = Some (h, m1)" by auto
  moreover from Cons.IH Cons.prems have "\<exists>r. sumHeights call ks (s + h) m1 = Some r" by simp
  ultimately show ?case by simp
qed

lemma calcHeight_returns:
  "ranked chm rk \<Longrightarrow> rk n < d \<Longrightarrow> \<exists>r. calcHeight d cs chm n memo = Some r"
proof (induction d arbitrary: n memo)
  case 0
  then show ?case by simp
next
  case (Suc d)
  show ?case
  proof (cases "memo n")
    case (Some h)
    then show ?thesis by simp
  next
    case None
    have "\<exists>r. calcHeight d cs chm c m = Some r" if "c \<in> set (childrenOf chm n)" for c m
    proof -
      from that Suc.prems(1) have "rk c < rk n" by (auto simp: ranked_def)
      with Suc.prems(2) have "rk c < d" by simp
      with Suc.IH Suc.prems(1) show ?thesis by blast
    qed
    then have "\<exists>r. sumHeights (calcHeight d cs chm) (childrenOf chm n) 0 memo = Some r"
      by (rule sumHeights_returns)
    with None show ?thesis by (auto simp: Let_def)
  qed
qed

lemma calcRootHeights_returns:
  "ranked chm rk \<Longrightarrow> \<forall>r \<in> set roots. rk (c_id r) < d
     \<Longrightarrow> \<exists>m. calcRootHeights d cs chm roots memo = Some m"
proof (induction roots arbitrary: memo)
  case Nil
  then show ?case by simp
next
  case (Cons r roots)
  from calcHeight_returns [OF Cons.prems(1), of "c_id r" d cs memo] Cons.prems(2)
  obtain h m1 where "calcHeight d cs chm (c_id r) memo = Some (h, m1)" by auto
  moreover from Cons have "\<exists>m. calcRootHeights d cs chm roots m1 = Some m" by simp
  ultimately show ?case by simp
qed

lemma sumHeights_closed:
  assumes step: "\<And>c m h m'. call c m = Some (h, m') \<Longrightarrow> heightsClosed chm m
            \<Longrightarrow> heightsClosed chm m' \<and> dom m \<subseteq> dom m' \<and> c \<in> dom m'"
    and "sumHeights call ks s memo = Some (t, memo')" and "heightsClosed chm memo"
  shows "heightsClosed chm memo' \<and> dom memo \<subseteq> dom memo' \<and> set ks \<subseteq> dom memo'"
  using assms(2,3)
proof (induction ks arbitrary: s memo)
  case Nil
  then show ?case by simp
next
  case (Cons k ks)
  from Cons.prems(1) obtain h m1 where
    c: "call k memo = Some (h, m1)" and r: "sumHeights call ks (s + h) m1 = Some (t, memo')"
    by (auto split: option.splits)
  from step [OF c Cons.prems(2)]
  have m1: "heightsClosed chm m1" "dom memo \<subseteq> dom m1" "k \<in> dom m1" by simp_all
  from Cons.IH [OF r m1(1)]
  have "heightsClosed chm memo'" "dom m1 \<subseteq> dom memo'" "set ks \<subseteq> dom memo'" by simp_all
  with m1 show ?case by auto
qed

lemma heightsClosed_update:
  "heightsClosed chm m \<Longrightarrow> set (childrenOf chm n) \<subseteq> dom m \<Longrightarrow> heightsClosed chm (m(n \<mapsto> v))"
  by (auto simp: heightsClosed_def)

lemma calcHeight_closed:
  "calcHeight d cs chm n memo = Some (h, memo') \<Longrightarrow> heightsClosed chm memo
     \<Longrightarrow> heightsClosed chm memo' \<and> dom memo \<subseteq> dom memo' \<and> n \<in> dom memo'"
proof (induction d arbitrary: n memo h memo')
  case 0
  then show ?case by simp
next
  case (Suc d)
  show ?case
  proof (cases "memo n")
    case (Some v)
    with Suc.prems show ?thesis by auto
  next
    case None
    show ?thesis
    proof (cases "childrenOf chm n = []")
      case True
      with None Suc.prems(1) have eq: "memo' = memo(n \<mapsto> h)" by (auto simp: Let_def)
      from True Suc.prems(2) have "heightsClosed chm (memo(n \<mapsto> h))"
        by (simp add: heightsClosed_update)
      then have "heightsClosed chm (memo(n \<mapsto> h)) \<and> dom memo \<subseteq> dom (memo(n \<mapsto> h))
          \<and> n \<in> dom (memo(n \<mapsto> h))"
        by (simp add: subset_insertI)
      with eq show ?thesis by blast
    next
      case False
      with None Suc.prems(1) obtain t m1 where
        s: "sumHeights (calcHeight d cs chm) (childrenOf chm n) 0 memo = Some (t, m1)"
        and m': "memo' = m1(n \<mapsto> h)"
        by (auto simp: Let_def split: option.splits)
      from sumHeights_closed [OF Suc.IH s Suc.prems(2)]
      have m1: "heightsClosed chm m1" "dom memo \<subseteq> dom m1" "set (childrenOf chm n) \<subseteq> dom m1"
        by simp_all
      from m1(1,3) have "heightsClosed chm (m1(n \<mapsto> h))" by (rule heightsClosed_update)
      with m1(2) have "heightsClosed chm (m1(n \<mapsto> h)) \<and> dom memo \<subseteq> dom (m1(n \<mapsto> h))
          \<and> n \<in> dom (m1(n \<mapsto> h))"
        by (simp add: subset_insertI2)
      with m' show ?thesis by blast
    qed
  qed
qed

lemma calcRootHeights_closed:
  "calcRootHeights d cs chm roots memo = Some sh \<Longrightarrow> heightsClosed chm memo
     \<Longrightarrow> heightsClosed chm sh \<and> dom memo \<subseteq> dom sh \<and> c_id ` set roots \<subseteq> dom sh"
proof (induction roots arbitrary: memo)
  case Nil
  then show ?case by simp
next
  case (Cons r roots)
  from Cons.prems(1) obtain h m1 where
    c: "calcHeight d cs chm (c_id r) memo = Some (h, m1)"
    and r: "calcRootHeights d cs chm roots m1 = Some sh"
    by (auto split: option.splits)
  from calcHeight_closed [OF c Cons.prems(2)]
  have m1: "heightsClosed chm m1" "dom memo \<subseteq> dom m1" "c_id r \<in> dom m1" by simp_all
  from Cons.IH [OF r m1(1)]
  have "heightsClosed chm sh" "dom m1 \<subseteq> dom sh" "c_id ` set roots \<subseteq> dom sh" by simp_all
  with m1 show ?case by auto
qed

lemma placeChildren_returns:
  assumes "\<And>c y p. c \<in> set ks \<Longrightarrow> \<exists>p'. call c y p = Some p'"
    and "set ks \<subseteq> dom sh"
  shows "\<exists>p'. placeChildren call sh ks sy pos = Some p'"
  using assms
proof (induction ks arbitrary: sy pos)
  case Nil
  then show ?case by simp
next
  case (Cons k ks)
  from Cons.prems(2) obtain ch where ch: "sh k = Some ch" by auto
  from Cons.prems(1) [of k "sy + ch / 2" pos] obtain p1 where
    "call k (sy + ch / 2) pos = Some p1" by auto
  moreover from Cons.IH Cons.prems
  have "\<exists>p'. placeChildren call sh ks (sy + ch) p1 = Some p'" by simp
  ultimately show ?case using ch by simp
qed

lemma assignPosition_returns:
  "ranked chm rk \<Longrightarrow> heightsClosed chm sh \<Longrightarrow> n \<in> dom sh \<Longrightarrow> rk n < d
     \<Longrightarrow> \<exists>pos'. assignPosition d cs chm sh n cy pos = Some pos'"
proof (induction d arbitrary: n cy pos)
  case 0
  then show ?case by simp
next
  case (Suc d)
  show ?case
  proof (cases "findComponent cs n")
    case None
    then show ?thesis by simp
  next
    case (Some node)
    from Suc.prems(3) obtain h where h: "sh n = Some h" by auto
    from Suc.prems(2,3) have kids: "set (childrenOf chm n) \<subseteq> dom sh"
      by (auto simp: heightsClosed_def)
    have "\<exists>p'. assignPosition d cs chm sh c y p = Some p'"
      if "c \<in> set (sort (childrenOf chm n))" for c y p
    proof -
      from that have c: "c \<in> set (childrenOf chm n)" by simp
      with Suc.prems(1) have "rk c < rk n" by (auto simp: ranked_def)
      with Suc.prems(4) have "rk c < d" by simp
      moreover from c kids have "c \<in> dom sh" by auto
      ultimately show ?thesis using Suc.IH Suc.prems(1,2) by blast
    qed
    moreover from kids have "set (sort (childrenOf chm n)) \<subseteq> dom sh" by simp
    ultimately have "\<exists>p'. placeChildren (assignPosition d cs chm sh) sh
        (sort (childrenOf chm n)) sy p = Some p'" for sy p
      by (rule placeChildren_returns)
    with Some h show ?thesis by (simp add: Let_def)
  qed
qed

lemma placeRoots_returns:
  "ranked chm rk \<Longrightarrow> heightsClosed chm sh \<Longrightarrow> c_id ` set roots \<subseteq> dom sh
     \<Longrightarrow> \<forall>r \<in> set roots. rk (c_id r) < d
     \<Longrightarrow> \<exists>res. placeRoots d cs chm sh roots y pos = Some res"
proof (induction roots arbitrary: y pos)
  case Nil
  then show ?case by simp
next
  case (Cons r roots)
  from Cons.prems(3) obtain h where h: "sh (c_id r) = Some h" by auto
  from Cons.prems have "c_id r \<in> dom sh" "rk (c_id r) < d" by auto
  from assignPosition_returns [OF Cons.prems(1,2) this, of cs "y + h / 2" pos]
  obtain p1 where "assignPosition d cs chm sh (c_id r) (y + h / 2) pos = Some p1" by auto
  moreover from Cons
  have "\<exists>res. placeRoots d cs chm sh roots (y + (h + 40)) p1 = Some res" by simp
  ultimately show ?case using h by simp
qed

lemma set_rootsOf: "set (rootsOf cs pm) \<subseteq> set cs"
  by (auto simp: rootsOf_def)

lemma computePositions_returns:
  assumes "ranked (fst (buildMaps cs conns)) rk" and "\<forall>c \<in> set cs. rk (c_id c) < d"
  shows "\<exists>res. computePositions d cs conns = Some res"
proof -
  let ?chm = "fst (buildMaps cs conns)"
  let ?roots = "rootsOf cs (snd (buildMaps cs conns))"
  from assms(2) set_rootsOf have rk: "\<forall>r \<in> set ?roots. rk (c_id r) < d" by blast
  from calcRootHeights_returns [OF assms(1) rk] obtain sh where
    sh: "calcRootHeights d cs ?chm ?roots Map.empty = Some sh" by blast
  have "heightsClosed ?chm Map.empty" by (simp add: heightsClosed_def)
  from calcRootHeights_closed [OF sh this]
  have "heightsClosed ?chm sh" "c_id ` set ?roots \<subseteq> dom sh" by simp_all
  from placeRoots_returns [OF assms(1) this rk]
  have "\<exists>res. placeRoots d cs ?chm sh ?roots 100 Map.empty = Some res" .
  with sh show ?thesis by (simp add: computePositions_def Let_def)
qed

lemma layout_returns:
  assumes "ranked (fst (buildMaps cs conns)) rk" and "\<forall>c \<in> set cs. rk (c_id c) < d"
  shows "\<exists>res. calculateSmartLayout d cs conns = Some res"
  using computePositions_returns [OF assms]
  by (auto simp: calculateSmartLayout_def)


section \<open>Coverage\<close>




section \<open>Connections with a missing endpoint\<close>

text \<open>
  Claim C7, as stated, at a concrete input: the connection from \<open>ghost\<close>, which is
  no component, to the grid \<open>a\<close> puts \<open>ghost\<close> on the children list of \<open>a\<close>, and
  the computed y of \<open>a\<close> is 200 instead of the 160 it has without that connection.
\<close>

theorem dangling_child_counterexample:
  "findComponent two_stage ''ghost'' = None
   \<and> calculateSmartLayout 3 two_stage [mkConnection ''b'' ''a''] =
       Some \<lparr>layoutedComponents =
               [mkComponent ''a'' GRID (Some 1000) (Some 160),
                mkComponent ''b'' INVERTER (Some 460) (Some 160)],
             totalHeight = 1000\<rparr>
   \<and> calculateSmartLayout 3 two_stage [mkConnection ''b'' ''a'', mkConnection ''ghost'' ''a''] =
       Some \<lparr>layoutedComponents =
               [mkComponent ''a'' GRID (Some 1000) (Some 200),
                mkComponent ''b'' INVERTER (Some 460) (Some 160)],
             totalHeight = 1000\<rparr>
   \<and> fst (buildMaps two_stage [mkConnection ''b'' ''a'', mkConnection ''ghost'' ''a'']) ''a''
       = Some [''b'', ''ghost'']"
  by code_simp

text \<open>
  Claim C7, amended. Let a connection have an endpoint that is no component.
  \<^item> On every layout that is returned, no edge is drawn for it and every component
    has both coordinates.
  \<^item> When its resolved parent is the missing id, it is skipped: removing it from
    the connection list leaves both maps unchanged.
  \<^item> When its resolved parent is a component, the child is the missing id and is
    appended to the parent's children list; there it counts with the base node
    height 100 in the subtree heights and is given no position of its own.
  \<^item> The layout returns for every connection list containing it whose children
    map is ranked, at any depth above the ranks of the components.
\<close>

theorem dangling_reference:
  assumes "conn_from conn \<notin> c_id ` set components \<or> conn_to conn \<notin> c_id ` set components"
    and "resolveDirection components conn = (parent, child)"
  shows "(\<forall>depth connections res.
            calculateSmartLayout depth components connections = Some res \<longrightarrow>
              \<not> rendersEdge (layoutedComponents res) conn
            \<and> (\<forall>c \<in> set (layoutedComponents res). c_x c \<noteq> None \<and> c_y c \<noteq> None))
       \<and> (parent \<notin> c_id ` set components \<longrightarrow>
            (\<forall>pre post. buildMaps components (pre @ conn # post)
                          = buildMaps components (pre @ post)))
       \<and> (parent \<in> c_id ` set components \<longrightarrow>
            child \<notin> c_id ` set components
          \<and> (\<forall>pre. fst (buildMaps components (pre @ [conn])) parent
                      = Some (childrenOf (fst (buildMaps components pre)) parent @ [child]))
          \<and> (\<forall>depth connections memo. memo child = None \<longrightarrow>
                calcHeight (Suc depth) components (fst (buildMaps components connections))
                  child memo
                  = Some (BASE_NODE_HEIGHT, memo(child \<mapsto> BASE_NODE_HEIGHT)))
          \<and> (\<forall>depth childrenMap subtreeHeights centerY positions.
                assignPosition (Suc depth) components childrenMap subtreeHeights child centerY
                  positions = Some positions))
       \<and> (\<forall>depth connections rk.
            conn \<in> set connections
            \<and> ranked (fst (buildMaps components connections)) rk
            \<and> (\<forall>c \<in> set components. rk (c_id c) < depth) \<longrightarrow>
            (\<exists>res. calculateSmartLayout depth components connections = Some res))"
proof -
  have render: "\<not> rendersEdge (layoutedComponents res) conn
      \<and> (\<forall>c \<in> set (layoutedComponents res). c_x c \<noteq> None \<and> c_y c \<noteq> None)"
    if "calculateSmartLayout depth components connections = Some res"
    for depth connections res
  proof -
    from layout_ids [OF that]
    have "c_id ` set (layoutedComponents res) = c_id ` set components"
      by (metis set_map)
    with assms(1) have "\<not> rendersEdge (layoutedComponents res) conn"
      by (auto simp: rendersEdge_def findComponent_None_iff)
    with layout_positioned [OF that] show ?thesis by blast
  qed
  have skip: "buildMaps components (pre @ conn # post) = buildMaps components (pre @ post)"
    if "parent \<notin> c_id ` set components" for pre post
    using assms(2) that by (rule buildMaps_skip)
  have child: "child \<notin> c_id ` set components" if "parent \<in> c_id ` set components"
    using resolveDirection_endpoints [OF assms(2)] assms(1) that by metis
  have kids: "fst (buildMaps components (pre @ [conn])) parent
                = Some (childrenOf (fst (buildMaps components pre)) parent @ [child])"
    if "parent \<in> c_id ` set components" for pre
  proof -
    from that have "fst (buildMaps components pre) parent \<noteq> None"
      using dom_buildMaps [of components pre] by (auto simp: dom_def)
    with assms(2) show ?thesis
      by (auto simp: buildMaps_snoc addConnection_def childrenOf_def)
  qed
  have height: "calcHeight (Suc depth) components (fst (buildMaps components connections))
                  child memo = Some (BASE_NODE_HEIGHT, memo(child \<mapsto> BASE_NODE_HEIGHT))"
    if "parent \<in> c_id ` set components" and "memo child = None" for depth connections memo
    using child [OF that(1)] that(2)
    by (simp add: childrenOf_missing findComponent_None_iff [THEN iffD2])
  have place: "assignPosition (Suc depth) components childrenMap subtreeHeights child centerY
                  positions = Some positions"
    if "parent \<in> c_id ` set components"
    for depth childrenMap subtreeHeights centerY positions
    using child [OF that] by (simp add: findComponent_None_iff [THEN iffD2])
  have returns: "\<exists>res. calculateSmartLayout depth components connections = Some res"
    if "ranked (fst (buildMaps components connections)) rk"
      and "\<forall>c \<in> set components. rk (c_id c) < depth"
    for depth connections rk
    using that by (rule layout_returns)
  show ?thesis
  proof (intro conjI allI impI)
    fix depth connections res
    assume "calculateSmartLayout depth components connections = Some res"
    from render [OF this]
    show "\<not> rendersEdge (layoutedComponents res) conn"
      and "\<forall>c \<in> set (layoutedComponents res). c_x c \<noteq> None \<and> c_y c \<noteq> None"
      by simp_all
  next
    fix pre post
    assume "parent \<notin> c_id ` set components"
    then show "buildMaps components (pre @ conn # post) = buildMaps components (pre @ post)"
      by (rule skip)
  next
    assume "parent \<in> c_id ` set components"
    then show "child \<notin> c_id ` set components" by (rule child)
  next
    fix pre
    assume "parent \<in> c_id ` set components"
    then show "fst (buildMaps components (pre @ [conn])) parent
                = Some (childrenOf (fst (buildMaps components pre)) parent @ [child])"
      by (rule kids)
  next
    fix depth connections and memo :: height_map
    assume "parent \<in> c_id ` set components" and "memo child = None"
    then show "calcHeight (Suc depth) components (fst (buildMaps components connections))
                  child memo = Some (BASE_NODE_HEIGHT, memo(child \<mapsto> BASE_NODE_HEIGHT))"
      by (rule height)
  next
    fix depth childrenMap subtreeHeights centerY positions
    assume "parent \<in> c_id ` set components"
    then show "assignPosition (Suc depth) components childrenMap subtreeHeights child centerY
                  positions = Some positions"
      by (rule place)
  next
    fix depth connections rk
    assume "conn \<in> set connections
            \<and> ranked (fst (buildMaps components connections)) rk
            \<and> (\<forall>c \<in> set components. rk (c_id c) < depth)"
    then show "\<exists>res. calculateSmartLayout depth components connections = Some res"
      using returns by blast
  qed
qed


lemma ghost_children:
  "childrenOf (fst (buildMaps two_stage ghost_wiring)) p
     = (if p = ''a'' then [''b'', ''ghost''] else [])"
  by (simp add: buildMaps_def initChildren_def addConnection_def resolveDirection_def
      levelOfId_def isLoad_def findComponent_def childrenOf_def two_stage_def ghost_wiring_def
      mkComponent_def mkConnection_def Let_def)

lemma ghost_ranked: "ranked (fst (buildMaps two_stage ghost_wiring)) two_stage_rank"
  by (simp add: ranked_def ghost_children two_stage_rank_def)

theorem dangling_reference_witness:
  "conn_from (mkConnection ''ghost'' ''a'') \<notin> c_id ` set two_stage
   \<and> resolveDirection two_stage (mkConnection ''ghost'' ''a'') = (''a'', ''ghost'')
   \<and> ''a'' \<in> c_id ` set two_stage
   \<and> ranked (fst (buildMaps two_stage ghost_wiring)) two_stage_rank
   \<and> (\<exists>res. calculateSmartLayout 2 two_stage ghost_wiring = Some res)
   \<and> calculateSmartLayout 2 two_stage ghost_wiring = Some ghost_layout
   \<and> \<not> rendersEdge (layoutedComponents ghost_layout) (mkConnection ''ghost'' ''a'')
   \<and> fst (buildMaps two_stage ([mkConnection ''b'' ''a''] @ [mkConnection ''ghost'' ''a''])) ''a''
       = Some [''b'', ''ghost'']
   \<and> calcHeight (Suc 0) two_stage (fst (buildMaps two_stage ghost_wiring)) ''ghost'' Map.empty
       = Some (BASE_NODE_HEIGHT, [''ghost'' \<mapsto> BASE_NODE_HEIGHT])
   \<and> conn_to (mkConnection ''pv'' ''nowhere'') \<notin> c_id ` set two_feeders
   \<and> resolveDirection two_feeders (mkConnection ''pv'' ''nowhere'') = (''nowhere'', ''pv'')
   \<and> buildMaps two_feeders
        ([mkConnection ''c'' ''p1''] @ mkConnection ''pv'' ''nowhere'' # [mkConnection ''c'' ''p2''])
       = buildMaps two_feeders ([mkConnection ''c'' ''p1''] @ [mkConnection ''c'' ''p2''])"
proof -
  let ?g = "mkConnection ''ghost'' ''a''" and ?n = "mkConnection ''pv'' ''nowhere''"
  have a: "conn_from ?g \<notin> c_id ` set two_stage \<or> conn_to ?g \<notin> c_id ` set two_stage"
    and a': "conn_from ?g \<notin> c_id ` set two_stage"
    by (simp_all add: two_stage_def mkComponent_def mkConnection_def)
  have b: "resolveDirection two_stage ?g = (''a'', ''ghost'')" by code_simp
  have c: "''a'' \<in> c_id ` set two_stage" by (simp add: two_stage_def mkComponent_def)
  have d: "calculateSmartLayout 2 two_stage ghost_wiring = Some ghost_layout" by code_simp
  have e: "mkConnection ''ghost'' ''a'' \<in> set ghost_wiring" by (simp add: ghost_wiring_def)
  have f: "\<forall>c \<in> set two_stage. two_stage_rank (c_id c) < 2"
    by (simp add: two_stage_def mkComponent_def two_stage_rank_def)
  have g: "childrenOf (fst (buildMaps two_stage [mkConnection ''b'' ''a''])) ''a'' = [''b'']"
    by code_simp
  have h: "conn_from ?n \<notin> c_id ` set two_feeders \<or> conn_to ?n \<notin> c_id ` set two_feeders"
    and h': "conn_to ?n \<notin> c_id ` set two_feeders"
    by (simp_all add: two_feeders_def mkComponent_def mkConnection_def)
  have i: "resolveDirection two_feeders ?n = (''nowhere'', ''pv'')" by code_simp
  have j: "''nowhere'' \<notin> c_id ` set two_feeders" by (simp add: two_feeders_def mkComponent_def)
  note g1 = dangling_reference [OF a b] and n1 = dangling_reference [OF h i]
  note g_drawn = g1 [THEN conjunct1, rule_format]
    and g_child = g1 [THEN conjunct2, THEN conjunct2, THEN conjunct1, THEN mp, OF c]
    and n_skip = n1 [THEN conjunct2, THEN conjunct1, THEN mp, OF j, rule_format]
  note g_kids = g_child [THEN conjunct2, THEN conjunct1, rule_format]
    and g_height = g_child [THEN conjunct2, THEN conjunct2, THEN conjunct1, rule_format]
  from g_drawn [OF d] have r: "\<not> rendersEdge (layoutedComponents ghost_layout) ?g"
    by (rule conjunct1)
  from g_kids [of "[mkConnection ''b'' ''a'']"] g
  have k: "fst (buildMaps two_stage ([mkConnection ''b'' ''a''] @ [?g])) ''a''
             = Some [''b'', ''ghost'']"
    by simp
  have ht: "calcHeight (Suc 0) two_stage (fst (buildMaps two_stage ghost_wiring))
              ''ghost'' Map.empty = Some (BASE_NODE_HEIGHT, [''ghost'' \<mapsto> BASE_NODE_HEIGHT])"
    by (rule g_height) simp
  have s: "buildMaps two_feeders
             ([mkConnection ''c'' ''p1''] @ ?n # [mkConnection ''c'' ''p2''])
           = buildMaps two_feeders ([mkConnection ''c'' ''p1''] @ [mkConnection ''c'' ''p2''])"
    by (rule n_skip)
  have ret: "\<exists>res. calculateSmartLayout 2 two_stage ghost_wiring = Some res"
    by (rule g1 [THEN conjunct2, THEN conjunct2, THEN conjunct2, rule_format,
          of ghost_wiring two_stage_rank 2]) (use e ghost_ranked f in blast)
  from a' b c ghost_ranked ret d r k ht h' i s show ?thesis by blast
qed


end
